theory Spec2Isabelle
  imports Complex_Main "HOL-Library.Word" "HOL-Library.Signed_Division"
begin

section \<open>circle\_limitation.h: constants, table and types\<close>

text \<open>
  The fixed-point types of the C sources are machine words: \<open>int16_t\<close> and
  \<open>uint16_t\<close> are \<open>16 word\<close>, \<open>int32_t\<close> and \<open>uint32_t\<close> are \<open>32 word\<close>,
  \<open>uint8_t\<close> is \<open>8 word\<close>. Signedness is not part of the type: it is chosen by
  the operation that reads the word (\<open>sint\<close>, \<open>uint\<close>, \<open>scast\<close>, \<open>ucast\<close>),
  as the C conversions choose it.
\<close>

definition START_INDEX :: nat where
  "START_INDEX = 56"

definition MAX_MODULE :: nat where
  "MAX_MODULE = 30800"

definition MMITABLE :: "16 word list" where
  "MMITABLE =
    [32607,32293,31988,31691,31546,31261,30984,30714,30451,30322,
     30069,29822,29581,29346,29231,29004,28782,28565,28353,28249,
     28044,27843,27647,27455,27360,27174,26991,26812,26724,26550,
     26380,26213,26049,25968,25808,25652,25498,25347,25272,25125,
     24981,24839,24699,24630,24494,24360,24228,24098,24034,23908,
     23783,23660,23600,23480,23361,23245,23131,23074,22962,22851,
     22742,22635,22582,22477,22373,22271,22170,22120,22021,21924,
     21827,21732]"

record qd_t =
  q :: "16 word"
  d :: "16 word"

record CircleLimitation_Handle_t =
  MaxModule :: "16 word"
  MaxVd :: "16 word"
  Circle_limit_table :: "16 word list"
  Start_index :: "8 word"

text \<open>
  The member \<open>Circle_limit_table\<close> is declared \<open>uint16_t[87]\<close>; the initializer
  \<open>MMITABLE\<close> lists 72 values, and C fills the remaining 15 entries with zero.
\<close>

definition CircleLimitationM1 :: CircleLimitation_Handle_t where
  "CircleLimitationM1 =
    \<lparr> MaxModule = of_nat MAX_MODULE,
      MaxVd = of_nat (MAX_MODULE * 950 div 1000),
      Circle_limit_table = MMITABLE @ replicate (87 - length MMITABLE) 0,
      Start_index = of_nat START_INDEX \<rparr>"

section \<open>circle\_limitation.c: the table-driven limiter\<close>

text \<open>
  C's \<open>/\<close> on \<open>int32_t\<close> truncates towards zero; this is \<open>sdiv\<close> on the
  signed readings.
\<close>

definition sdiv32 :: "32 word \<Rightarrow> 32 word \<Rightarrow> 32 word" where
  "sdiv32 a b = word_of_int (sint a sdiv sint b)"

text \<open>
  \<open>Circle_Limitation\<close>, the branch compiled when \<open>CIRCLE_LIMITATION_VD\<close> is not
  defined, in three parts: the sum of squares (lines 102-105), the table index
  (lines 111-117) and the function itself. The 32-bit sum of squares wraps around
  (two's complement); converting it to \<open>uint32_t\<close> keeps the bits. A read of
  \<open>Circle_limit_table\<close> outside the 87 entries of the array is the result \<open>None\<close>.
\<close>

definition square_sum :: "qd_t \<Rightarrow> 32 word" where
  "square_sum Vqd =
     (scast (q Vqd) :: 32 word) * scast (q Vqd) + scast (d Vqd) * scast (d Vqd)"

definition table_index :: "CircleLimitation_Handle_t \<Rightarrow> 32 word \<Rightarrow> 8 word" where
  "table_index pHandle uw_temp =
     (let uw_temp = uw_temp div 16777216;
          uw_temp = uw_temp - ucast (Start_index pHandle)
      in ucast uw_temp)"

definition Circle_Limitation :: "CircleLimitation_Handle_t \<Rightarrow> qd_t \<Rightarrow> qd_t option" where
  "Circle_Limitation pHandle Vqd =
    (let uw_temp = square_sum Vqd
     in if uw_temp > ucast (MaxModule pHandle) * ucast (MaxModule pHandle) then
          (let i = unat (table_index pHandle uw_temp)
           in if i < length (Circle_limit_table pHandle) then
                (let table_element = Circle_limit_table pHandle ! i;
                     sw_q = scast (q Vqd) * (ucast table_element :: 32 word);
                     sw_d = scast (d Vqd) * (ucast table_element :: 32 word)
                 in Some \<lparr> q = scast (sdiv32 sw_q 32768), d = scast (sdiv32 sw_d 32768) \<rparr>)
              else None)
        else Some Vqd)"

text \<open>
  The squared magnitude \<open>q\<^sup>2 + d\<^sup>2\<close> of a vector as a mathematical integer, read
  from the signed components. Magnitudes are compared through their squares.
\<close>

definition module_sq :: "qd_t \<Rightarrow> int" where
  "module_sq v = sint (q v) * sint (q v) + sint (d v) * sint (d v)"

section \<open>MCM\_Rev\_Park.c: the rotation stage\<close>

text \<open>
  Lines 118-119 of \<open>mdlOutputs\<close>: the reverse Park transform of the limited
  components, which C converts to \<open>double\<close>. The doubles of the S-functions are
  modelled as real numbers throughout.
\<close>

definition Rev_Park :: "real \<Rightarrow> real \<Rightarrow> real \<Rightarrow> real \<times> real" where
  "Rev_Park Vq Vd theta =
     (Vq * cos theta + Vd * sin theta, - Vq * sin theta + Vd * cos theta)"

section \<open>svpwm.c: the encoder\<close>

definition NUM_CSTATES :: nat where
  "NUM_CSTATES = 1"

definition PI :: real where
  "PI = pi"

text \<open>
  The part of the \<open>SimStruct\<close> the S-function touches: the continuous states
  (\<open>ssGetContStates\<close>), their derivatives (\<open>ssGetdX\<close>), the two input ports
  (\<open>Ui0\<close>, \<open>Ui1\<close>), the output port \<open>y\<close> and the two parameters read through
  \<open>mxGetPr\<close>.
\<close>

record SimStruct =
  ContStates :: "real list"
  dX :: "real list"
  InputPort0 :: "real list"
  InputPort1 :: "real list"
  OutputPort0 :: "real list"
  Vbus :: real
  Ts :: real

text \<open>
  \<open>mdlInitializeSizes\<close> declares one continuous state, input ports of widths 2
  and 1 and one output port of width 9. A \<open>SimStruct\<close> laid out so:
\<close>

definition mdlInitializeSizes :: "SimStruct \<Rightarrow> bool" where
  "mdlInitializeSizes S \<longleftrightarrow>
     length (ContStates S) = NUM_CSTATES \<and> length (dX S) = NUM_CSTATES \<and>
     length (InputPort0 S) = 2 \<and> length (InputPort1 S) = 1 \<and>
     length (OutputPort0 S) = 9"

text \<open>The loop of \<open>mdlInitializeConditions\<close> over the continuous states.\<close>

definition mdlInitializeConditions :: "SimStruct \<Rightarrow> SimStruct" where
  "mdlInitializeConditions S =
     S\<lparr>ContStates := fold (\<lambda>i x0. x0[i := 0.0]) [0..<NUM_CSTATES] (ContStates S)\<rparr>"

definition mdlDerivatives :: "SimStruct \<Rightarrow> SimStruct" where
  "mdlDerivatives S = S\<lparr>dX := (dX S)[0 := InputPort1 S ! 0 - 0.500]\<rparr>"

text \<open>
  The C library's \<open>atan2 y x\<close> on real numbers: the angle of the point \<open>(x, y)\<close>
  in \<open>(-\<pi>, \<pi>]\<close>, and 0 at the origin.
\<close>

definition atan2 :: "real \<Rightarrow> real \<Rightarrow> real" where
  "atan2 y x =
     (if 0 < x then arctan (y / x)
      else if x < 0 then (if 0 \<le> y then arctan (y / x) + pi else arctan (y / x) - pi)
      else if 0 < y then pi / 2
      else if y < 0 then - (pi / 2)
      else 0)"

text \<open>
  The local variables of \<open>mdlOutputs\<close>, each as a function of the \<open>SimStruct\<close>,
  in the order of the source.
\<close>

definition ramp :: "SimStruct \<Rightarrow> real" where
  "ramp S = 4.0 * ContStates S ! 0"

definition Va :: "SimStruct \<Rightarrow> real" where
  "Va S = InputPort0 S ! 0 / 2 ^ 14"

definition Vb :: "SimStruct \<Rightarrow> real" where
  "Vb S = InputPort0 S ! 1 / 2 ^ 14"

definition angle :: "SimStruct \<Rightarrow> real" where
  "angle S = atan2 (Vb S) (Va S)"

definition deg :: "SimStruct \<Rightarrow> real" where
  "deg S = angle S * 180.0 / PI"

definition Mi :: "SimStruct \<Rightarrow> real" where
  "Mi S = sqrt (Vb S * Vb S + Va S * Va S)"

text \<open>
  The six conditions of the sector computation (lines 246-256), by sector number, and
  the chain that tests them in order; \<open>None\<close> is its final \<open>else\<close>, which
  assigns sector 1.
\<close>

definition sector_cond :: "int \<Rightarrow> real \<Rightarrow> bool" where
  "sector_cond k dg =
     (if k = 1 then dg \<ge> 0 \<and> dg \<le> 60
      else if k = 2 then dg > 60 \<and> dg \<le> 120
      else if k = 3 then dg > 120 \<and> dg \<le> 180
      else if k = 4 then dg < -120 \<and> dg > -180
      else if k = 5 then dg < -60 \<and> dg \<ge> -120
      else if k = 6 then dg < 0 \<and> dg \<ge> -60
      else False)"

definition sector_select :: "real \<Rightarrow> int option" where
  "sector_select dg =
     (if sector_cond 1 dg then Some 1
      else if sector_cond 2 dg then Some 2
      else if sector_cond 3 dg then Some 3
      else if sector_cond 4 dg then Some 4
      else if sector_cond 5 dg then Some 5
      else if sector_cond 6 dg then Some 6
      else None)"

definition sector :: "SimStruct \<Rightarrow> int" where
  "sector S = (case sector_select (deg S) of Some k \<Rightarrow> k | None \<Rightarrow> 1)"

definition n :: "SimStruct \<Rightarrow> real" where
  "n S = of_int (sector S)"

definition del1 :: "SimStruct \<Rightarrow> real" where
  "del1 S = (2.0 / sqrt 3) * Mi S *
     (cos (angle S) * sin (n S * PI / 3.0) - sin (angle S) * cos (n S * PI / 3.0))"

definition del2 :: "SimStruct \<Rightarrow> real" where
  "del2 S = (2.0 / sqrt 3) * Mi S *
     (sin (angle S) * cos ((n S - 1.0) * PI / 3.0) - cos (angle S) * sin ((n S - 1.0) * PI / 3.0))"

definition del3 :: "SimStruct \<Rightarrow> real" where
  "del3 S = 1.0 - \<bar>del1 S\<bar> - \<bar>del2 S\<bar>"

definition T1 :: "SimStruct \<Rightarrow> real" where
  "T1 S = del1 S * Ts S"

definition T2 :: "SimStruct \<Rightarrow> real" where
  "T2 S = del2 S * Ts S"

definition Tz :: "SimStruct \<Rightarrow> real" where
  "Tz S = del3 S * Ts S"

definition td :: "SimStruct \<Rightarrow> real" where
  "td S = Tz S / 2.0"

definition ta :: "SimStruct \<Rightarrow> real" where
  "ta S = T1 S + T2 S + td S"

definition tb :: "SimStruct \<Rightarrow> real" where
  "tb S = T1 S + td S"

definition tc :: "SimStruct \<Rightarrow> real" where
  "tc S = T2 S + td S"

text \<open>The \<open>switch\<close> on the sector: the three comparator thresholds.\<close>

definition sine1 :: "SimStruct \<Rightarrow> real" where
  "sine1 S =
     (if sector S = 1 then ta S else if sector S = 2 then tb S
      else if sector S = 3 then td S else if sector S = 4 then td S
      else if sector S = 5 then tc S else if sector S = 6 then ta S
      else ta S)"

definition sine2 :: "SimStruct \<Rightarrow> real" where
  "sine2 S =
     (if sector S = 1 then tc S else if sector S = 2 then ta S
      else if sector S = 3 then ta S else if sector S = 4 then tb S
      else if sector S = 5 then td S else if sector S = 6 then td S
      else tc S)"

definition sine3 :: "SimStruct \<Rightarrow> real" where
  "sine3 S =
     (if sector S = 1 then td S else if sector S = 2 then td S
      else if sector S = 3 then tc S else if sector S = 4 then ta S
      else if sector S = 5 then ta S else if sector S = 6 then tb S
      else td S)"

definition U :: "SimStruct \<Rightarrow> real" where
  "U S = (if sine1 S > ramp S then Vbus S else 0.0)"

definition V :: "SimStruct \<Rightarrow> real" where
  "V S = (if sine2 S > ramp S then Vbus S else 0.0)"

definition W :: "SimStruct \<Rightarrow> real" where
  "W S = (if sine3 S > ramp S then Vbus S else 0.0)"

text \<open>\<open>mdlOutputs\<close> of svpwm.c writes the nine entries of the output port.\<close>

definition mdlOutputs :: "SimStruct \<Rightarrow> SimStruct" where
  "mdlOutputs S =
     S\<lparr>OutputPort0 :=
         [U S, V S, W S, angle S, of_int (sector S), ramp S, T1 S, T2 S, Tz S]\<rparr>"


section \<open>Machine arithmetic of the limiter\<close>

lemma sq_bound16: "- 32768 \<le> (x::int) \<Longrightarrow> x < 32768 \<Longrightarrow> x * x \<le> 1073741824"
proof -
  assume a: "- 32768 \<le> x" "x < 32768"
  then have "\<bar>x\<bar> \<le> 32768" by simp
  then have "\<bar>x\<bar> * \<bar>x\<bar> \<le> 32768 * 32768" by (intro mult_mono) simp_all
  then show ?thesis by simp
qed

lemma sint16_range: "- 32768 \<le> sint (a :: 16 word) \<and> sint a < 32768"
  using sint_ge [of a] sint_lt [of a] by simp

lemma module_sq_le: "module_sq v \<le> 2147483648"
  using sq_bound16 [of "sint (q v)"] sq_bound16 [of "sint (d v)"]
    sint16_range [of "q v"] sint16_range [of "d v"]
  by (simp add: module_sq_def)

lemma module_sq_ge: "0 \<le> module_sq v"
  by (simp add: module_sq_def)

text \<open>The 32-bit sum of squares, read as unsigned, is the mathematical sum.\<close>

lemma uint_square_sum: "uint (square_sum v) = module_sq v"
proof -
  let ?s = "module_sq v"
  have w: "square_sum v = word_of_int ?s"
    by (simp add: square_sum_def module_sq_def)
  have "0 \<le> ?s" "?s < 2 ^ 32"
    using module_sq_ge [of v] module_sq_le [of v] by simp_all
  then have "take_bit 32 ?s = ?s" by (simp add: take_bit_int_eq_self)
  then show ?thesis by (simp only: w uint_word_of_int_eq len_bit0 len_num1) simp
qed

lemma smul_sint:
  "sint ((scast a :: 32 word) * ucast k) = sint a * uint k"
  for a k :: "16 word"
proof -
  have w: "(scast a :: 32 word) * ucast k = word_of_int (sint a * uint k)"
    by simp
  have k: "0 \<le> uint k" "uint k < 65536" using uint_lt2p [of k] by simp_all
  have a: "\<bar>sint a\<bar> \<le> 32768" using sint16_range [of a] by arith
  have "\<bar>sint a\<bar> * uint k \<le> 32768 * 65535" using a k by (intro mult_mono) simp_all
  then have "\<bar>sint a * uint k\<bar> \<le> 32768 * 65535" using k by (simp add: abs_mult)
  then have "- (2 ^ 31) \<le> sint a * uint k" "sint a * uint k < 2 ^ 31" by simp_all
  then have "signed_take_bit 31 (sint a * uint k) = sint a * uint k"
    by (simp add: signed_take_bit_int_eq_self)
  then show ?thesis by (simp only: w sint_sbintrunc') simp
qed

subsection \<open>Division by 32768, truncating\<close>

lemma sdiv_Q15: "x sdiv 32768 = (if 0 \<le> x then x div 32768 else - ((- x) div 32768))" for x :: int
  by (simp add: signed_divide_int_def sgn_if)

lemma sdiv_Q15_abs: "\<bar>x sdiv 32768\<bar> = \<bar>x\<bar> div 32768" for x :: int
  by (simp add: sdiv_Q15 abs_if div_pos_neg_trivial pos_imp_zdiv_nonneg_iff)

lemma sdiv_Q15_abs_le: "\<bar>x sdiv 32768\<bar> * 32768 \<le> \<bar>x\<bar>" for x :: int
  by (simp add: sdiv_Q15_abs)

lemma q15_trunc_sq:
  fixes x k :: int
  shows "(x * k sdiv 32768) * (x * k sdiv 32768) * 1073741824 \<le> x * x * (k * k)"
proof -
  let ?t = "x * k sdiv 32768"
  have h: "(\<bar>?t\<bar> * 32768) * (\<bar>?t\<bar> * 32768) \<le> \<bar>x * k\<bar> * \<bar>x * k\<bar>"
    by (intro mult_mono sdiv_Q15_abs_le) simp_all
  have e1: "(\<bar>?t\<bar> * 32768) * (\<bar>?t\<bar> * 32768) = ?t * ?t * 1073741824"
    by simp
  have e2: "\<bar>x * k\<bar> * \<bar>x * k\<bar> = x * x * (k * k)"
    by (simp add: algebra_simps)
  from h show ?thesis unfolding e1 e2 .
qed

text \<open>
  The scaled vector stays inside the circle when the coefficient \<open>k\<close> of a bucket
  with upper end \<open>m * 2\<^sup>2\<^sup>4\<close> satisfies \<open>k\<^sup>2 * m \<le> 64 * 30800\<^sup>2\<close>.
\<close>

lemma limiter_bound:
  fixes x y k m :: int
  assumes s: "x * x + y * y \<le> m * 16777216" and t: "k * k * m \<le> 60712960000"
  shows "(x * k sdiv 32768) * (x * k sdiv 32768) + (y * k sdiv 32768) * (y * k sdiv 32768)
         \<le> 948640000"
proof -
  let ?t = "x * k sdiv 32768" and ?u = "y * k sdiv 32768"
  have "(?t * ?t + ?u * ?u) * 1073741824 \<le> x * x * (k * k) + y * y * (k * k)"
    using q15_trunc_sq [of x k] q15_trunc_sq [of y k] by (simp add: algebra_simps)
  also have "\<dots> = (x * x + y * y) * (k * k)" by (simp add: algebra_simps)
  also have "\<dots> \<le> (m * 16777216) * (k * k)"
    using s by (intro mult_right_mono) simp_all
  also have "\<dots> = (k * k * m) * 16777216" by simp
  also have "\<dots> \<le> 60712960000 * 16777216"
    using t by (intro mult_right_mono) simp_all
  finally show ?thesis by simp
qed

lemma q15_sgn:
  fixes x k :: int
  assumes "21732 \<le> k" "2 \<le> \<bar>x\<bar>"
  shows "sgn (x * k sdiv 32768) = sgn x"
proof (cases "0 \<le> x")
  case True
  then have "2 \<le> x" using assms by simp
  then have "2 * 21732 \<le> x * k" using assms(1) by (intro mult_mono) simp_all
  then have "1 \<le> x * k div 32768" by simp
  then show ?thesis using True \<open>2 \<le> x\<close> \<open>2 * 21732 \<le> x * k\<close> by (simp add: sdiv_Q15)
next
  case False
  then have "2 \<le> - x" using assms by simp
  then have "2 * 21732 \<le> (- x) * k" using assms(1) by (intro mult_mono) simp_all
  then have p: "2 * 21732 \<le> - (x * k)" by simp
  then have "1 \<le> (- (x * k)) div 32768" by simp
  then show ?thesis using False p by (simp add: sdiv_Q15)
qed

lemma q15_unit:
  fixes x k :: int
  assumes "0 \<le> k" "k < 32768" "\<bar>x\<bar> = 1"
  shows "x * k sdiv 32768 = 0"
proof -
  have "x = 1 \<or> x = - 1" using assms(3) by arith
  then show ?thesis
  proof
    assume "x = 1"
    then show ?thesis using assms(1,2) by (simp add: sdiv_Q15)
  next
    assume "x = - 1"
    then show ?thesis using assms(1,2) by (simp add: sdiv_Q15)
  qed
qed

lemma q15_noflip:
  fixes x k :: int
  assumes "0 \<le> k"
  shows "sgn (x * k sdiv 32768) = 0 \<or> sgn (x * k sdiv 32768) = sgn x"
proof (cases "x * k sdiv 32768 = 0")
  case True then show ?thesis by simp
next
  case False
  then have "sgn (x * k sdiv 32768) = sgn (x * k * 32768)" by (rule sgn_sdiv_eq_sgn_mult)
  moreover have "k \<noteq> 0" using False by (cases "k = 0") simp_all
  ultimately show ?thesis using assms by (simp add: sgn_mult)
qed

lemma q15_range:
  fixes x k :: int
  assumes "- 32768 \<le> x" "x < 32768" "0 \<le> k" "k \<le> 32768"
  shows "- 32768 \<le> x * k sdiv 32768" "x * k sdiv 32768 < 32768"
proof -
  have "\<bar>x * k\<bar> = \<bar>x\<bar> * k" using assms by (simp add: abs_mult)
  also have "\<dots> \<le> \<bar>x\<bar> * 32768" using assms by (intro mult_left_mono) simp_all
  finally have "\<bar>x * k\<bar> div 32768 \<le> \<bar>x\<bar>" by simp
  then have a: "\<bar>x * k sdiv 32768\<bar> \<le> \<bar>x\<bar>" by (simp only: sdiv_Q15_abs)
  show "- 32768 \<le> x * k sdiv 32768" using a assms by arith
  have "0 \<le> x \<or> x * k sdiv 32768 \<le> 0"
  proof (cases "0 \<le> x")
    case True then show ?thesis by simp
  next
    case False
    then have "x * k \<le> 0" using assms(3) by (simp add: mult_nonpos_nonneg)
    then have "0 \<le> (- (x * k)) div 32768" by (simp add: pos_imp_zdiv_nonneg_iff)
    then have "x * k sdiv 32768 \<le> 0" using \<open>x * k \<le> 0\<close> by (simp add: sdiv_Q15)
    then show ?thesis by simp
  qed
  then show "x * k sdiv 32768 < 32768" using a assms by arith
qed

text \<open>
  One component of the output, read as a signed integer: no wrap-around in the
  product, in the division or in the conversion to \<open>int16_t\<close> while the coefficient
  is at most 32768.
\<close>

lemma cl_component:
  fixes a k :: "16 word"
  assumes "uint k \<le> 32768"
  shows "sint (scast (sdiv32 (scast a * ucast k) 32768) :: 16 word) = (sint a * uint k) sdiv 32768"
proof -
  let ?z = "(sint a * uint k) sdiv 32768"
  have r: "- 32768 \<le> ?z" "?z < 32768"
    using q15_range [of "sint a" "uint k"] sint16_range [of a] assms by simp_all
  have "sdiv32 (scast a * ucast k) 32768 = (word_of_int ?z :: 32 word)"
    by (simp only: sdiv32_def smul_sint) simp
  moreover have "sint (word_of_int ?z :: 32 word) = ?z"
    using r by (simp add: sint_sbintrunc' signed_take_bit_int_eq_self)
  ultimately have "(scast (sdiv32 (scast a * ucast k) 32768) :: 16 word) = word_of_int ?z"
    by (simp only: scast_eq)
  moreover have "sint (word_of_int ?z :: 16 word) = ?z"
    using r by (simp add: sint_sbintrunc' signed_take_bit_int_eq_self)
  ultimately show ?thesis by simp
qed

subsection \<open>The table of motor 1\<close>

lemma MMITABLE_len: "length MMITABLE = 72"
  by (simp add: MMITABLE_def)

lemma tbl_len: "length (Circle_limit_table CircleLimitationM1) = 87"
  by (simp add: CircleLimitationM1_def MMITABLE_len)

lemma MMITABLE_enum:
  "\<forall>(m, k) \<in> set (enumerate 57 MMITABLE).
     21732 \<le> uint k \<and> uint k \<le> 32607 \<and> uint k * uint k * int m \<le> 60712960000"
  by (simp add: MMITABLE_def)

lemma MMITABLE_nth:
  assumes "i < 72"
  shows "21732 \<le> uint (MMITABLE ! i) \<and> uint (MMITABLE ! i) \<le> 32607
         \<and> uint (MMITABLE ! i) * uint (MMITABLE ! i) * (int i + 57) \<le> 60712960000"
proof -
  have "enumerate 57 MMITABLE ! i = (57 + i, MMITABLE ! i)"
    using assms by (simp add: nth_enumerate_eq MMITABLE_len)
  moreover have "enumerate 57 MMITABLE ! i \<in> set (enumerate 57 MMITABLE)"
    using assms by (intro nth_mem) (simp add: MMITABLE_len)
  ultimately have "(57 + i, MMITABLE ! i) \<in> set (enumerate 57 MMITABLE)" by simp
  with MMITABLE_enum show ?thesis by (fastforce simp: add.commute)
qed

lemma tbl_nth_low: "i < 72 \<Longrightarrow> Circle_limit_table CircleLimitationM1 ! i = MMITABLE ! i"
  by (simp add: CircleLimitationM1_def nth_append MMITABLE_len)

lemma tbl_nth_72: "Circle_limit_table CircleLimitationM1 ! 72 = 0"
  by (simp add: CircleLimitationM1_def nth_append MMITABLE_len)

lemma tbl_nth:
  assumes "i \<le> 72"
  shows "uint (Circle_limit_table CircleLimitationM1 ! i) \<le> 32607"
    and "uint (Circle_limit_table CircleLimitationM1 ! i)
           * uint (Circle_limit_table CircleLimitationM1 ! i) * (int i + 57) \<le> 60712960000"
proof -
  consider "i < 72" | "i = 72" using assms by linarith
  then have "uint (Circle_limit_table CircleLimitationM1 ! i) \<le> 32607 \<and>
    uint (Circle_limit_table CircleLimitationM1 ! i)
      * uint (Circle_limit_table CircleLimitationM1 ! i) * (int i + 57) \<le> 60712960000"
  proof cases
    case 1
    then show ?thesis using MMITABLE_nth [OF 1] by (simp add: tbl_nth_low)
  next
    case 2
    then show ?thesis by (simp add: tbl_nth_72)
  qed
  then show "uint (Circle_limit_table CircleLimitationM1 ! i) \<le> 32607"
    and "uint (Circle_limit_table CircleLimitationM1 ! i)
           * uint (Circle_limit_table CircleLimitationM1 ! i) * (int i + 57) \<le> 60712960000"
    by simp_all
qed

subsection \<open>The limiter of motor 1 on integers\<close>

lemma M1_limit:
  "(ucast (MaxModule CircleLimitationM1) :: 32 word) * ucast (MaxModule CircleLimitationM1)
   = 948640000"
  by (simp add: CircleLimitationM1_def MAX_MODULE_def)

lemma M1_start: "(ucast (Start_index CircleLimitationM1) :: 32 word) = 56"
  by (simp add: CircleLimitationM1_def START_INDEX_def)

lemma MAX_MODULE_sq: "int MAX_MODULE * int MAX_MODULE = 948640000"
  by (simp add: MAX_MODULE_def)

lemma Circle_Limitation_M1_in:
  assumes "module_sq v \<le> 948640000"
  shows "Circle_Limitation CircleLimitationM1 v = Some v"
proof -
  have "uint (square_sum v) \<le> uint (948640000 :: 32 word)"
    using assms by (simp only: uint_square_sum) simp
  then have "\<not> (948640000 < square_sum v)" by (simp only: word_less_def not_less)
  then show ?thesis
    by (simp only: Circle_Limitation_def Let_def M1_limit if_False)
qed

lemma bucket_index:
  fixes s :: int
  assumes "948640000 < s" "s \<le> 2147483648"
  shows "56 \<le> s div 16777216" "s div 16777216 \<le> 128"
  using assms by simp_all

lemma table_index_M1:
  assumes "948640000 < module_sq v"
  shows "uint (square_sum v div 16777216 - ucast (Start_index CircleLimitationM1))
           = module_sq v div 16777216 - 56"
    and "unat (table_index CircleLimitationM1 (square_sum v))
           = nat (module_sq v div 16777216 - 56)"
proof -
  let ?s = "module_sq v"
  let ?uw = "square_sum v"
  have b: "56 \<le> ?s div 16777216" "?s div 16777216 \<le> 128"
    using bucket_index [OF assms module_sq_le] by simp_all
  have u1: "uint (?uw div 16777216) = ?s div 16777216"
    by (simp only: uint_div uint_square_sum) simp
  have u2: "uint (?uw div 16777216 - 56) = ?s div 16777216 - 56"
  proof -
    have "uint (56 :: 32 word) \<le> uint (?uw div 16777216)" using b u1 by simp
    then have "uint (?uw div 16777216 - 56) = uint (?uw div 16777216) - uint (56 :: 32 word)"
      by (simp only: uint_sub_lem)
    then show ?thesis using u1 by simp
  qed
  then show "uint (?uw div 16777216 - ucast (Start_index CircleLimitationM1))
           = ?s div 16777216 - 56"
    by (simp only: M1_start)
  have "uint (ucast (?uw div 16777216 - 56) :: 8 word) = take_bit 8 (?s div 16777216 - 56)"
    using u2 by (simp add: unsigned_ucast_eq)
  also have "\<dots> = ?s div 16777216 - 56"
    using b by (simp add: take_bit_int_eq_self)
  finally have "nat (uint (ucast (?uw div 16777216 - 56) :: 8 word))
                  = nat (?s div 16777216 - 56)"
    by simp
  then show "unat (table_index CircleLimitationM1 (square_sum v))
               = nat (module_sq v div 16777216 - 56)"
    by (simp only: table_index_def Let_def M1_start unat_eq_nat_uint)
qed

lemma Circle_Limitation_M1_out:
  fixes v :: qd_t
  defines "i \<equiv> nat (module_sq v div 16777216 - 56)"
  assumes "948640000 < module_sq v"
  shows "i \<le> 72"
    and "Circle_Limitation CircleLimitationM1 v =
      Some \<lparr> q = scast (sdiv32 (scast (q v) * ucast (Circle_limit_table CircleLimitationM1 ! i)) 32768),
             d = scast (sdiv32 (scast (d v) * ucast (Circle_limit_table CircleLimitationM1 ! i)) 32768) \<rparr>"
proof -
  have b: "56 \<le> module_sq v div 16777216" "module_sq v div 16777216 \<le> 128"
    using bucket_index [OF assms(2) module_sq_le] by simp_all
  show i72: "i \<le> 72" using b by (simp add: i_def)
  have gt: "948640000 < square_sum v"
    using assms(2) by (simp add: word_less_def uint_square_sum)
  have u3: "unat (table_index CircleLimitationM1 (square_sum v)) = i"
    using table_index_M1(2) [OF assms(2)] by (simp only: i_def)
  have len: "i < length (Circle_limit_table CircleLimitationM1)"
    using i72 by (simp add: tbl_len)
  show "Circle_Limitation CircleLimitationM1 v =
      Some \<lparr> q = scast (sdiv32 (scast (q v) * ucast (Circle_limit_table CircleLimitationM1 ! i)) 32768),
             d = scast (sdiv32 (scast (d v) * ucast (Circle_limit_table CircleLimitationM1 ! i)) 32768) \<rparr>"
    using gt len by (simp only: Circle_Limitation_def Let_def M1_limit u3 if_True)
qed

text \<open>
  Outside the circle the limiter returns a vector whose signed components are the
  truncated products with the coefficient of the bucket.
\<close>

lemma Circle_Limitation_M1_scaled:
  assumes "948640000 < module_sq v"
  shows "\<exists>r i k. Circle_Limitation CircleLimitationM1 v = Some r
           \<and> i = nat (module_sq v div 16777216 - 56) \<and> i \<le> 72
           \<and> k = uint (Circle_limit_table CircleLimitationM1 ! i)
           \<and> sint (q r) = sint (q v) * k sdiv 32768
           \<and> sint (d r) = sint (d v) * k sdiv 32768"
proof -
  let ?i = "nat (module_sq v div 16777216 - 56)"
  let ?w = "Circle_limit_table CircleLimitationM1 ! ?i"
  have i: "?i \<le> 72" by (rule Circle_Limitation_M1_out(1) [OF assms])
  have k: "uint ?w \<le> 32768" using tbl_nth(1) [OF i] by simp
  show ?thesis
    using Circle_Limitation_M1_out(2) [OF assms] i cl_component [OF k]
    by simp
qed


lemma bucket_top:
  fixes s :: int
  shows "s \<le> (s div 16777216 + 1) * 16777216"
proof -
  have "s = s div 16777216 * 16777216 + s mod 16777216" by simp
  moreover have "s mod 16777216 < 16777216" by simp
  ultimately show ?thesis by (simp add: algebra_simps)
qed

section \<open>Properties of the limiter\<close>

text \<open>
  Claim C1. For every input vector outside the circle (\<open>q\<^sup>2 + d\<^sup>2 > MaxModule\<^sup>2\<close>,
  \<open>MaxModule = 30800\<close>) \<open>Circle_Limitation\<close> returns a vector, and its magnitude is
  at most \<open>MaxModule\<close>; no allowance of a quantization step is needed. For the input
  \<open>q = 32767\<close>, \<open>d = 32767\<close> the output magnitude is strictly less than the input
  magnitude and at most \<open>MaxModule\<close>. Magnitudes are compared through their squares.
\<close>

theorem Circle_Limitation_magnitude:
  "(int MAX_MODULE * int MAX_MODULE < module_sq v \<longrightarrow>
      (\<exists>r. Circle_Limitation CircleLimitationM1 v = Some r
            \<and> module_sq r \<le> int MAX_MODULE * int MAX_MODULE))
   \<and> (\<exists>r. Circle_Limitation CircleLimitationM1 \<lparr>q = 32767, d = 32767\<rparr> = Some r
            \<and> module_sq r < module_sq \<lparr>q = 32767, d = 32767\<rparr>
            \<and> module_sq r \<le> int MAX_MODULE * int MAX_MODULE)"
proof (intro conjI impI)
  assume "int MAX_MODULE * int MAX_MODULE < module_sq v"
  then have out: "948640000 < module_sq v" by (simp only: MAX_MODULE_sq)
  from Circle_Limitation_M1_scaled [OF out]
  obtain r i k where r: "Circle_Limitation CircleLimitationM1 v = Some r"
    and i: "i = nat (module_sq v div 16777216 - 56)" "i \<le> 72"
    and k: "k = uint (Circle_limit_table CircleLimitationM1 ! i)"
    and qr: "sint (q r) = sint (q v) * k sdiv 32768"
    and dr: "sint (d r) = sint (d v) * k sdiv 32768"
    by blast
  have b: "56 \<le> module_sq v div 16777216"
    using bucket_index(1) [OF out module_sq_le] .
  then have m: "int i + 57 = module_sq v div 16777216 + 1" using i(1) by simp
  have s: "sint (q v) * sint (q v) + sint (d v) * sint (d v) \<le> (int i + 57) * 16777216"
    using bucket_top [of "module_sq v"] by (simp only: m module_sq_def)
  have t: "k * k * (int i + 57) \<le> 60712960000"
    using tbl_nth(2) [OF i(2)] by (simp only: k)
  have "module_sq r \<le> 948640000"
    using limiter_bound [OF s t] by (simp only: module_sq_def qr dr)
  then show "\<exists>r. Circle_Limitation CircleLimitationM1 v = Some r
            \<and> module_sq r \<le> int MAX_MODULE * int MAX_MODULE"
    using r by (simp only: MAX_MODULE_sq) simp
next
  have "Circle_Limitation CircleLimitationM1 \<lparr>q = 32767, d = 32767\<rparr>
          = Some \<lparr>q = 21731, d = 21731\<rparr>"
    by (simp add: Circle_Limitation_def square_sum_def table_index_def CircleLimitationM1_def
        MMITABLE_def MAX_MODULE_def START_INDEX_def sdiv32_def Let_def)
  moreover have "module_sq \<lparr>q = 21731, d = 21731\<rparr> < module_sq \<lparr>q = 32767, d = 32767\<rparr>"
    by (simp add: module_sq_def)
  moreover have "module_sq \<lparr>q = 21731, d = 21731\<rparr> \<le> int MAX_MODULE * int MAX_MODULE"
    by (simp add: module_sq_def MAX_MODULE_def)
  ultimately show "\<exists>r. Circle_Limitation CircleLimitationM1 \<lparr>q = 32767, d = 32767\<rparr> = Some r
            \<and> module_sq r < module_sq \<lparr>q = 32767, d = 32767\<rparr>
            \<and> module_sq r \<le> int MAX_MODULE * int MAX_MODULE"
    by simp
qed

theorem Circle_Limitation_magnitude_witness:
  "int MAX_MODULE * int MAX_MODULE < module_sq \<lparr>q = 30000, d = -20000\<rparr>
   \<and> (\<exists>r. Circle_Limitation CircleLimitationM1 \<lparr>q = 30000, d = -20000\<rparr> = Some r
            \<and> module_sq r \<le> int MAX_MODULE * int MAX_MODULE)"
proof -
  have h: "int MAX_MODULE * int MAX_MODULE < module_sq \<lparr>q = 30000, d = -20000\<rparr>"
    by (simp add: module_sq_def MAX_MODULE_def)
  show ?thesis
    using h Circle_Limitation_magnitude [of "\<lparr>q = 30000, d = -20000\<rparr>"] by blast
qed

text \<open>
  Claim C2. For every input vector with \<open>q\<^sup>2 + d\<^sup>2 \<le> MaxModule\<^sup>2\<close>
  \<open>Circle_Limitation\<close> returns the input vector unchanged; the boundary
  \<open>q\<^sup>2 + d\<^sup>2 = MaxModule\<^sup>2\<close> is part of this case.
\<close>

theorem Circle_Limitation_inside:
  "module_sq v \<le> int MAX_MODULE * int MAX_MODULE \<Longrightarrow>
   Circle_Limitation CircleLimitationM1 v = Some v"
  by (rule Circle_Limitation_M1_in) (simp only: MAX_MODULE_sq)

theorem Circle_Limitation_inside_witness:
  "module_sq \<lparr>q = 30800, d = 0\<rparr> = int MAX_MODULE * int MAX_MODULE
   \<and> Circle_Limitation CircleLimitationM1 \<lparr>q = 30800, d = 0\<rparr> = Some \<lparr>q = 30800, d = 0\<rparr>"
proof -
  have h: "module_sq \<lparr>q = 30800, d = 0\<rparr> = int MAX_MODULE * int MAX_MODULE"
    by (simp add: module_sq_def MAX_MODULE_def)
  then have "module_sq \<lparr>q = 30800, d = 0\<rparr> \<le> int MAX_MODULE * int MAX_MODULE" by simp
  from Circle_Limitation_inside [OF this] h show ?thesis by simp
qed


lemma module_sq_top:
  assumes "v \<noteq> \<lparr>q = - 32768, d = - 32768\<rparr>"
  shows "module_sq v < 2147483648"
proof (rule ccontr)
  assume "\<not> module_sq v < 2147483648"
  then have ge: "2147483648 \<le> sint (q v) * sint (q v) + sint (d v) * sint (d v)"
    by (simp add: module_sq_def)
  have bq: "sint (q v) * sint (q v) \<le> 1073741824" and bd: "sint (d v) * sint (d v) \<le> 1073741824"
    using sq_bound16 sint16_range by blast+
  have small: "x * x < 1073741824" if "- 32768 < x" "x < 32768" for x :: int
  proof -
    have "\<bar>x\<bar> \<le> 32767" using that by simp
    then have "\<bar>x\<bar> * \<bar>x\<bar> \<le> 32767 * 32767" by (intro mult_mono) simp_all
    then show ?thesis by simp
  qed
  have "sint (q v) = - 32768"
    using small [of "sint (q v)"] sint16_range [of "q v"] ge bd by force
  moreover have "sint (d v) = - 32768"
    using small [of "sint (d v)"] sint16_range [of "d v"] ge bq by force
  ultimately have "word_of_int (sint (q v)) = (- 32768 :: 16 word)"
    "word_of_int (sint (d v)) = (- 32768 :: 16 word)" by simp_all
  then have "q v = - 32768" "d v = - 32768" by simp_all
  then have "v = \<lparr>q = - 32768, d = - 32768\<rparr>" by simp
  with assms show False by simp
qed

text \<open>
  Outside the circle and away from \<open>(-32768, -32768)\<close> the bucket is one of the 72
  listed ones, whose coefficients lie between 21732 and 32607.
\<close>

lemma table_index_M1_listed:
  assumes "948640000 < module_sq v" and "v \<noteq> \<lparr>q = - 32768, d = - 32768\<rparr>"
  shows "nat (module_sq v div 16777216 - 56) < 72"
  using module_sq_top [OF assms(2)] bucket_index(1) [OF assms(1) module_sq_le] by simp

text \<open>
  Claim C5, as the code has it. For every input vector outside the circle other than
  \<open>(-32768, -32768)\<close>, no output component has the sign opposite to its input
  component: it is zero or has the same sign. A component of magnitude at least 2
  keeps its sign; a component of magnitude 1 is truncated to zero by the division
  by 32768.
\<close>

theorem Circle_Limitation_sign:
  assumes "int MAX_MODULE * int MAX_MODULE < module_sq v"
    and "v \<noteq> \<lparr>q = - 32768, d = - 32768\<rparr>"
  shows "\<exists>r. Circle_Limitation CircleLimitationM1 v = Some r
    \<and> (sgn (sint (q r)) = 0 \<or> sgn (sint (q r)) = sgn (sint (q v)))
    \<and> (sgn (sint (d r)) = 0 \<or> sgn (sint (d r)) = sgn (sint (d v)))
    \<and> (2 \<le> \<bar>sint (q v)\<bar> \<longrightarrow> sgn (sint (q r)) = sgn (sint (q v)))
    \<and> (2 \<le> \<bar>sint (d v)\<bar> \<longrightarrow> sgn (sint (d r)) = sgn (sint (d v)))
    \<and> (\<bar>sint (q v)\<bar> = 1 \<longrightarrow> sint (q r) = 0)
    \<and> (\<bar>sint (d v)\<bar> = 1 \<longrightarrow> sint (d r) = 0)"
proof -
  have out: "948640000 < module_sq v" using assms(1) by (simp only: MAX_MODULE_sq)
  from Circle_Limitation_M1_scaled [OF out]
  obtain r i k where r: "Circle_Limitation CircleLimitationM1 v = Some r"
    and i: "i = nat (module_sq v div 16777216 - 56)"
    and k: "k = uint (Circle_limit_table CircleLimitationM1 ! i)"
    and qr: "sint (q r) = sint (q v) * k sdiv 32768"
    and dr: "sint (d r) = sint (d v) * k sdiv 32768"
    by blast
  have i72: "i < 72" using table_index_M1_listed [OF out assms(2)] by (simp only: i)
  then have k1: "21732 \<le> k" using MMITABLE_nth [of i] by (simp add: k tbl_nth_low)
  then have k0: "0 \<le> k" by simp
  have k2: "k < 32768" using i72 MMITABLE_nth [of i] by (simp add: k tbl_nth_low)
  have f1: "sgn (sint (q r)) = 0 \<or> sgn (sint (q r)) = sgn (sint (q v))"
    using q15_noflip [OF k0, of "sint (q v)"] by (simp only: qr)
  have f2: "sgn (sint (d r)) = 0 \<or> sgn (sint (d r)) = sgn (sint (d v))"
    using q15_noflip [OF k0, of "sint (d v)"] by (simp only: dr)
  have f3: "2 \<le> \<bar>sint (q v)\<bar> \<longrightarrow> sgn (sint (q r)) = sgn (sint (q v))"
    using q15_sgn [OF k1, of "sint (q v)"] by (simp only: qr) blast
  have f4: "2 \<le> \<bar>sint (d v)\<bar> \<longrightarrow> sgn (sint (d r)) = sgn (sint (d v))"
    using q15_sgn [OF k1, of "sint (d v)"] by (simp only: dr) blast
  have f5: "\<bar>sint (q v)\<bar> = 1 \<longrightarrow> sint (q r) = 0"
    using q15_unit [OF k0 k2, of "sint (q v)"] by (simp only: qr) blast
  have f6: "\<bar>sint (d v)\<bar> = 1 \<longrightarrow> sint (d r) = 0"
    using q15_unit [OF k0 k2, of "sint (d v)"] by (simp only: dr) blast
  from r f1 f2 f3 f4 f5 f6 show ?thesis by blast
qed

theorem Circle_Limitation_sign_witness:
  "(int MAX_MODULE * int MAX_MODULE < module_sq \<lparr>q = 1, d = 32767\<rparr>
    \<and> \<lparr>q = 1, d = 32767\<rparr> \<noteq> \<lparr>q = - 32768, d = - 32768\<rparr>
    \<and> \<bar>sint (1 :: 16 word)\<bar> = 1 \<and> 2 \<le> \<bar>sint (32767 :: 16 word)\<bar>
    \<and> (\<exists>r. Circle_Limitation CircleLimitationM1 \<lparr>q = 1, d = 32767\<rparr> = Some r
          \<and> sint (q r) = 0 \<and> sgn (sint (d r)) = 1))
   \<and> (int MAX_MODULE * int MAX_MODULE < module_sq \<lparr>q = - 32000, d = - 1\<rparr>
    \<and> \<lparr>q = - 32000, d = - 1\<rparr> \<noteq> \<lparr>q = - 32768, d = - 32768\<rparr>
    \<and> 2 \<le> \<bar>sint (- 32000 :: 16 word)\<bar> \<and> \<bar>sint (- 1 :: 16 word)\<bar> = 1
    \<and> (\<exists>r. Circle_Limitation CircleLimitationM1 \<lparr>q = - 32000, d = - 1\<rparr> = Some r
          \<and> sgn (sint (q r)) = - 1 \<and> sint (d r) = 0))"
proof -
  have g1: "int MAX_MODULE * int MAX_MODULE < module_sq \<lparr>q = 1, d = 32767\<rparr>"
    by (simp add: module_sq_def MAX_MODULE_def)
  have g2: "\<lparr>q = 1, d = 32767\<rparr> \<noteq> \<lparr>q = - 32768, d = - 32768\<rparr>"
    by simp
  have g3: "\<bar>sint (1 :: 16 word)\<bar> = 1" "2 \<le> \<bar>sint (32767 :: 16 word)\<bar>"
    by simp_all
  from Circle_Limitation_sign [OF g1 g2]
  obtain r where r: "Circle_Limitation CircleLimitationM1 \<lparr>q = 1, d = 32767\<rparr> = Some r"
    and a: "\<bar>sint (q \<lparr>q = 1, d = 32767\<rparr>)\<bar> = 1 \<longrightarrow> sint (q r) = 0"
    and b: "2 \<le> \<bar>sint (d \<lparr>q = 1, d = 32767\<rparr>)\<bar>
              \<longrightarrow> sgn (sint (d r)) = sgn (sint (d \<lparr>q = 1, d = 32767\<rparr>))"
    by blast
  have "sint (q r) = 0" using a by simp
  moreover have "sgn (sint (d r)) = 1" using b by simp
  ultimately have first: "\<exists>r. Circle_Limitation CircleLimitationM1 \<lparr>q = 1, d = 32767\<rparr> = Some r
          \<and> sint (q r) = 0 \<and> sgn (sint (d r)) = 1"
    using r by blast
  have h1: "int MAX_MODULE * int MAX_MODULE < module_sq \<lparr>q = - 32000, d = - 1\<rparr>"
    by (simp add: module_sq_def MAX_MODULE_def)
  have h2: "\<lparr>q = - 32000, d = - 1\<rparr> \<noteq> \<lparr>q = - 32768, d = - 32768\<rparr>"
    by simp
  have h3: "2 \<le> \<bar>sint (- 32000 :: 16 word)\<bar>" "\<bar>sint (- 1 :: 16 word)\<bar> = 1"
    by simp_all
  from Circle_Limitation_sign [OF h1 h2]
  obtain s where s: "Circle_Limitation CircleLimitationM1 \<lparr>q = - 32000, d = - 1\<rparr> = Some s"
    and c: "2 \<le> \<bar>sint (q \<lparr>q = - 32000, d = - 1\<rparr>)\<bar>
              \<longrightarrow> sgn (sint (q s)) = sgn (sint (q \<lparr>q = - 32000, d = - 1\<rparr>))"
    and e: "\<bar>sint (d \<lparr>q = - 32000, d = - 1\<rparr>)\<bar> = 1 \<longrightarrow> sint (d s) = 0"
    by blast
  have "sgn (sint (q s)) = - 1" using c by simp
  moreover have "sint (d s) = 0" using e by simp
  ultimately have second: "\<exists>r. Circle_Limitation CircleLimitationM1 \<lparr>q = - 32000, d = - 1\<rparr> = Some r
          \<and> sgn (sint (q r)) = - 1 \<and> sint (d r) = 0"
    using s by blast
  from g1 g2 g3 first h1 h2 h3 second show ?thesis by blast
qed

text \<open>
  Claim C5 as stated fails where the truncating division takes a component of
  magnitude 1 to zero: the input \<open>(1, 32767)\<close> lies outside the circle, is not the
  zero vector, and its output is \<open>(0, 30713)\<close>.
\<close>

theorem Circle_Limitation_sign_counterexample:
  "int MAX_MODULE * int MAX_MODULE < module_sq \<lparr>q = 1, d = 32767\<rparr>
   \<and> \<not> (q \<lparr>q = 1, d = 32767\<rparr> = 0 \<and> d \<lparr>q = 1, d = 32767\<rparr> = 0)
   \<and> Circle_Limitation CircleLimitationM1 \<lparr>q = 1, d = 32767\<rparr> = Some \<lparr>q = 0, d = 30713\<rparr>
   \<and> sgn (sint (q \<lparr>q = 0, d = 30713\<rparr>)) \<noteq> sgn (sint (q \<lparr>q = 1, d = 32767\<rparr>))"
proof -
  have "int MAX_MODULE * int MAX_MODULE < module_sq \<lparr>q = 1, d = 32767\<rparr>"
    by (simp add: module_sq_def MAX_MODULE_def)
  moreover have s: "square_sum \<lparr>q = 1, d = 32767\<rparr> = 1073676290"
    by (simp add: square_sum_def)
  have i: "unat (table_index CircleLimitationM1 1073676290) = 7"
    by (simp add: table_index_def CircleLimitationM1_def START_INDEX_def Let_def)
  have t: "Circle_limit_table CircleLimitationM1 ! 7 = 30714"
    by (simp add: CircleLimitationM1_def MMITABLE_def)
  have "Circle_Limitation CircleLimitationM1 \<lparr>q = 1, d = 32767\<rparr>
      = Some \<lparr>q = 0, d = 30713\<rparr>"
    by (simp add: Circle_Limitation_def s i t M1_limit tbl_len sdiv32_def)
  ultimately show ?thesis by simp
qed

text \<open>
  Away from \<open>(-32768, -32768)\<close> the quotient \<open>(q\<^sup>2 + d\<^sup>2) / 2\<^sup>2\<^sup>4\<close> lies in
  \<open>[56, 127]\<close>, the subtraction of \<open>Start_index\<close> and the conversion to
  \<open>uint8_t\<close> do not wrap, and the index is one of the 72 listed entries.
\<close>

lemma table_index_M1_range:
  assumes "int MAX_MODULE * int MAX_MODULE < module_sq v"
    and "v \<noteq> \<lparr>q = - 32768, d = - 32768\<rparr>"
  shows "56 \<le> module_sq v div 16777216 \<and> module_sq v div 16777216 \<le> 127
    \<and> uint (table_index CircleLimitationM1 (square_sum v)) = module_sq v div 16777216 - 56
    \<and> unat (table_index CircleLimitationM1 (square_sum v)) < length MMITABLE"
proof -
  have out: "948640000 < module_sq v" using assms(1) by (simp only: MAX_MODULE_sq)
  have b: "56 \<le> module_sq v div 16777216" by (rule bucket_index(1) [OF out module_sq_le])
  have t: "module_sq v div 16777216 \<le> 127" using module_sq_top [OF assms(2)] by simp
  have u: "unat (table_index CircleLimitationM1 (square_sum v))
             = nat (module_sq v div 16777216 - 56)"
    by (rule table_index_M1(2) [OF out])
  have "uint (table_index CircleLimitationM1 (square_sum v))
          = int (nat (module_sq v div 16777216 - 56))"
    by (simp only: uint_nat u)
  also have "\<dots> = module_sq v div 16777216 - 56" using b by simp
  finally have "uint (table_index CircleLimitationM1 (square_sum v))
             = module_sq v div 16777216 - 56" .
  moreover have "unat (table_index CircleLimitationM1 (square_sum v)) < 72"
    using b t by (simp only: u)
  ultimately show ?thesis using b t by (simp only: MMITABLE_len)
qed

text \<open>
  Claim C10 at the input \<open>(-32768, -32768)\<close>: the sum of squares is \<open>2\<^sup>3\<^sup>1\<close>, the
  quotient is 128 and the index is 72, one past the 72 listed coefficients. The entry
  read is one of those the initializer leaves at zero, and the limiter returns the
  zero vector.
\<close>

theorem Circle_Limitation_index_past_table:
  "int MAX_MODULE * int MAX_MODULE < module_sq \<lparr>q = - 32768, d = - 32768\<rparr>
   \<and> module_sq \<lparr>q = - 32768, d = - 32768\<rparr> div 16777216 = 128
   \<and> unat (table_index CircleLimitationM1 (square_sum \<lparr>q = - 32768, d = - 32768\<rparr>)) = 72
   \<and> length MMITABLE = 72
   \<and> Circle_limit_table CircleLimitationM1 ! 72 = 0
   \<and> Circle_Limitation CircleLimitationM1 \<lparr>q = - 32768, d = - 32768\<rparr> = Some \<lparr>q = 0, d = 0\<rparr>"
proof -
  have h: "int MAX_MODULE * int MAX_MODULE < module_sq \<lparr>q = - 32768, d = - 32768\<rparr>"
    "module_sq \<lparr>q = - 32768, d = - 32768\<rparr> div 16777216 = 128"
    by (simp_all add: module_sq_def MAX_MODULE_def)
  have s: "square_sum \<lparr>q = - 32768, d = - 32768\<rparr> = 2147483648"
    by (simp add: square_sum_def)
  have i: "unat (table_index CircleLimitationM1 2147483648) = 72"
    by (simp add: table_index_def CircleLimitationM1_def START_INDEX_def Let_def)
  have r: "Circle_Limitation CircleLimitationM1 \<lparr>q = - 32768, d = - 32768\<rparr>
      = Some \<lparr>q = 0, d = 0\<rparr>"
    by (simp add: Circle_Limitation_def s i M1_limit tbl_len tbl_nth_72 sdiv32_def)
  show ?thesis
    using h r by (simp only: s i MMITABLE_len tbl_nth_72)
qed


section \<open>Properties of the rotation stage\<close>

text \<open>
  Claim C8. For every vector \<open>(q, d)\<close> and every angle \<open>\<theta>\<close>, the rotation stage
  at \<open>\<theta>\<close> followed by the same map at \<open>-\<theta>\<close> gives back \<open>(q, d)\<close>, exactly,
  in real arithmetic.
\<close>

theorem Rev_Park_round_trip:
  "Rev_Park (fst (Rev_Park Vq Vd theta)) (snd (Rev_Park Vq Vd theta)) (- theta) = (Vq, Vd)"
proof -
  have c: "cos theta * cos theta + sin theta * sin theta = 1"
    using sin_cos_squared_add3 [of theta] by (simp add: add.commute)
  have e: "x * (cos theta * cos theta) + x * (sin theta * sin theta) = x" for x :: real
    by (simp only: distrib_left [symmetric] c mult_1_right)
  show ?thesis by (simp add: Rev_Park_def algebra_simps e)
qed

section \<open>Properties of the encoder\<close>

subsection \<open>Sector selection\<close>

lemma sector_cond_exclusive:
  "sector_cond j dg \<Longrightarrow> sector_cond k dg \<Longrightarrow> j = k"
  by (simp add: sector_cond_def split: if_splits)

lemma sector_cond_range:
  "sector_cond k dg \<Longrightarrow> k \<in> {1..6}"
  by (simp add: sector_cond_def split: if_splits)

lemma sector_select_Some:
  "sector_select dg = Some k \<longleftrightarrow> sector_cond k dg"
proof
  assume "sector_select dg = Some k"
  then show "sector_cond k dg"
    by (simp add: sector_select_def split: if_splits)
next
  assume k: "sector_cond k dg"
  then have r: "k = 1 \<or> k = 2 \<or> k = 3 \<or> k = 4 \<or> k = 5 \<or> k = 6"
    using sector_cond_range [OF k] by auto
  have "sector_cond j dg \<longleftrightarrow> j = k" for j
    using k sector_cond_exclusive by blast
  then show "sector_select dg = Some k"
    using r by (auto simp add: sector_select_def)
qed

lemma sector_cond_exists:
  assumes "- 180 < dg" "dg \<le> 180"
  shows "\<exists>k. sector_cond k dg"
proof -
  consider "0 \<le> dg \<and> dg \<le> 60" | "60 < dg \<and> dg \<le> 120" | "120 < dg \<and> dg \<le> 180"
    | "dg < - 120 \<and> - 180 < dg" | "dg < - 60 \<and> - 120 \<le> dg" | "dg < 0 \<and> - 60 \<le> dg"
    using assms by linarith
  then show ?thesis
  proof cases
    case 1 then have "sector_cond 1 dg" by (simp add: sector_cond_def)
    then show ?thesis ..
  next
    case 2 then have "sector_cond 2 dg" by (simp add: sector_cond_def)
    then show ?thesis ..
  next
    case 3 then have "sector_cond 3 dg" by (simp add: sector_cond_def)
    then show ?thesis ..
  next
    case 4 then have "sector_cond 4 dg" by (simp add: sector_cond_def)
    then show ?thesis ..
  next
    case 5 then have "sector_cond 5 dg" by (simp add: sector_cond_def)
    then show ?thesis ..
  next
    case 6 then have "sector_cond 6 dg" by (simp add: sector_cond_def)
    then show ?thesis ..
  qed
qed

text \<open>
  Claim C4. For every angle in degrees in \<open>(-180, 180]\<close> exactly one of the six
  sector conditions holds, and the chain of tests does not reach its final
  \<open>else\<close>.
\<close>

theorem sector_exactly_one:
  assumes "- 180 < dg" "dg \<le> 180"
  shows "(\<exists>!k. k \<in> {1..6} \<and> sector_cond k dg) \<and> sector_select dg \<noteq> None"
proof -
  obtain k where k: "sector_cond k dg" using sector_cond_exists [OF assms] ..
  have "\<exists>!k. k \<in> {1..6} \<and> sector_cond k dg"
  proof (rule ex1I [of _ k])
    show "k \<in> {1..6} \<and> sector_cond k dg" using k sector_cond_range [OF k] by simp
  next
    fix j assume "j \<in> {1..6} \<and> sector_cond j dg"
    then show "j = k" using k sector_cond_exclusive by blast
  qed
  moreover have "sector_select dg = Some k" using k by (simp only: sector_select_Some)
  ultimately show ?thesis by simp
qed

theorem sector_exactly_one_witness:
  "- 180 < (60 :: real) \<and> (60 :: real) \<le> 180
   \<and> (\<exists>!k. k \<in> {1..6} \<and> sector_cond k 60) \<and> sector_select 60 = Some 1"
proof -
  have h: "- 180 < (60 :: real)" "(60 :: real) \<le> 180" by simp_all
  have "sector_select 60 = Some 1" by (simp add: sector_select_def sector_cond_def)
  with sector_exactly_one [OF h] h show ?thesis by simp
qed

text \<open>
  On real numbers \<open>atan2\<close> stays in \<open>(-\<pi>, \<pi>]\<close>, so the angle in degrees of
  every input lies in \<open>(-180, 180]\<close> and inside the wedge of its sector.
\<close>

lemma atan2_range: "- pi < atan2 y x \<and> atan2 y x \<le> pi"
proof -
  have a: "- (pi / 2) < arctan (y / x)" "arctan (y / x) < pi / 2"
    using arctan_lbound arctan_ubound by blast+
  have p: "0 < pi" by simp
  consider "0 < x" | "x < 0" "0 \<le> y" | "x < 0" "y < 0" | "x = 0"
    by linarith
  then show ?thesis
  proof cases
    case 1 then show ?thesis using a p by (simp add: atan2_def)
  next
    case 2
    then have "y / x \<le> 0" by (simp add: divide_nonneg_neg)
    then have "arctan (y / x) \<le> 0" by (simp add: arctan_le_zero_iff)
    then show ?thesis using 2 a p by (simp add: atan2_def)
  next
    case 3
    then have "0 < y / x" by (simp add: divide_neg_neg)
    then have "0 < arctan (y / x)" by (simp add: zero_less_arctan_iff)
    then show ?thesis using 3 a p by (simp add: atan2_def)
  next
    case 4
    have e: "atan2 y x = pi / 2 \<or> atan2 y x = - (pi / 2) \<or> atan2 y x = 0"
      using 4 by (simp add: atan2_def)
    then show ?thesis using p by (elim disjE) (simp only:, linarith)+
  qed
qed

lemma deg_in_range: "- 180 < deg S \<and> deg S \<le> 180"
  using atan2_range [of "Vb S" "Va S"] by (simp add: deg_def angle_def PI_def field_simps)

lemma sector_in_wedge: "sector_cond (sector S) (deg S)"
proof -
  have "- 180 < deg S" "deg S \<le> 180" using deg_in_range [of S] by simp_all
  then obtain k where k: "sector_cond k (deg S)" using sector_cond_exists by blast
  then have "sector_select (deg S) = Some k" by (simp only: sector_select_Some)
  then have "sector S = k" by (simp add: sector_def)
  with k show ?thesis by simp
qed

subsection \<open>Dwell times\<close>

lemma sin_nonneg_up: "2 * pi \<le> x \<Longrightarrow> x \<le> 3 * pi \<Longrightarrow> 0 \<le> sin x"
proof -
  assume a: "2 * pi \<le> x" "x \<le> 3 * pi"
  have "sin x = sin ((x - 2 * pi) + 2 * pi)" by simp
  also have "\<dots> = sin (x - 2 * pi)" by (rule sin_periodic)
  also have "0 \<le> sin (x - 2 * pi)" using a by (intro sin_ge_zero) simp_all
  finally show ?thesis .
qed

lemma sin_nonneg_down: "- (2 * pi) \<le> x \<Longrightarrow> x \<le> - pi \<Longrightarrow> 0 \<le> sin x"
proof -
  assume a: "- (2 * pi) \<le> x" "x \<le> - pi"
  have "sin x = sin (x + 2 * pi)" by (rule sin_periodic [symmetric])
  moreover have "0 \<le> sin (x + 2 * pi)" using a by (intro sin_ge_zero) simp_all
  ultimately show ?thesis by simp
qed

lemma sin_nonneg_any:
  assumes "(0 \<le> x \<and> x \<le> pi) \<or> (2 * pi \<le> x \<and> x \<le> 3 * pi) \<or> (- (2 * pi) \<le> x \<and> x \<le> - pi)"
  shows "0 \<le> sin x"
  using assms sin_ge_zero sin_nonneg_up sin_nonneg_down by blast

lemma deg_bounds:
  "a * 180 / pi \<le> c \<longleftrightarrow> a \<le> c * pi / 180"
  "a * 180 / pi < c \<longleftrightarrow> a < c * pi / 180"
  "c \<le> a * 180 / pi \<longleftrightarrow> c * pi / 180 \<le> a"
  "c < a * 180 / pi \<longleftrightarrow> c * pi / 180 < a"
  by (simp_all add: field_simps)

lemma sector_cond_angle:
  assumes "sector_cond k (a * 180 / pi)"
  obtains "k = 1" "0 \<le> a" "a \<le> pi / 3"
    | "k = 2" "pi / 3 < a" "a \<le> 2 * pi / 3"
    | "k = 3" "2 * pi / 3 < a" "a \<le> pi"
    | "k = 4" "a < - (2 * pi / 3)" "- pi < a"
    | "k = 5" "a < - (pi / 3)" "- (2 * pi / 3) \<le> a"
    | "k = 6" "a < 0" "- (pi / 3) \<le> a"
proof -
  from assms have "k = 1 \<or> k = 2 \<or> k = 3 \<or> k = 4 \<or> k = 5 \<or> k = 6"
    by (simp add: sector_cond_def split: if_splits)
  then show ?thesis
  proof (elim disjE)
    assume k: "k = 1"
    then have "0 \<le> a" "a \<le> pi / 3" using assms by (simp_all add: sector_cond_def deg_bounds)
    with k show ?thesis by (rule that(1))
  next
    assume k: "k = 2"
    then have "pi / 3 < a" "a \<le> 2 * pi / 3" using assms by (simp_all add: sector_cond_def deg_bounds)
    with k show ?thesis by (rule that(2))
  next
    assume k: "k = 3"
    then have "2 * pi / 3 < a" "a \<le> pi" using assms by (simp_all add: sector_cond_def deg_bounds)
    with k show ?thesis by (rule that(3))
  next
    assume k: "k = 4"
    then have "a < - (2 * pi / 3)" "- pi < a" using assms by (simp_all add: sector_cond_def deg_bounds)
    with k show ?thesis by (rule that(4))
  next
    assume k: "k = 5"
    then have "a < - (pi / 3)" "- (2 * pi / 3) \<le> a" using assms by (simp_all add: sector_cond_def deg_bounds)
    with k show ?thesis by (rule that(5))
  next
    assume k: "k = 6"
    then have "a < 0" "- (pi / 3) \<le> a" using assms by (simp_all add: sector_cond_def deg_bounds)
    with k show ?thesis by (rule that(6))
  qed
qed

lemma wedge_del1:
  assumes "sector_cond k (a * 180 / pi)"
  shows "0 \<le> cos a * sin (of_int k * pi / 3) - sin a * cos (of_int k * pi / 3)"
proof -
  have e: "cos a * sin (of_int k * pi / 3) - sin a * cos (of_int k * pi / 3)
           = sin (of_int k * pi / 3 - a)"
    by (simp add: sin_diff mult.commute)
  have p: "0 < pi" by simp
  from assms have "0 \<le> sin (of_int k * pi / 3 - a)"
  proof (cases rule: sector_cond_angle)
    case 1
    then have "0 \<le> of_int k * pi / 3 - a \<and> of_int k * pi / 3 - a \<le> pi" using p by simp
    then show ?thesis by (simp add: sin_ge_zero)
  next
    case 2
    then have "0 \<le> of_int k * pi / 3 - a \<and> of_int k * pi / 3 - a \<le> pi" using p by simp
    then show ?thesis by (simp add: sin_ge_zero)
  next
    case 3
    then have "0 \<le> of_int k * pi / 3 - a \<and> of_int k * pi / 3 - a \<le> pi" using p by simp
    then show ?thesis by (simp add: sin_ge_zero)
  next
    case 4
    then have "2 * pi \<le> of_int k * pi / 3 - a \<and> of_int k * pi / 3 - a \<le> 3 * pi" using p by simp
    then show ?thesis by (simp add: sin_nonneg_up)
  next
    case 5
    then have "2 * pi \<le> of_int k * pi / 3 - a \<and> of_int k * pi / 3 - a \<le> 3 * pi" using p by simp
    then show ?thesis by (simp add: sin_nonneg_up)
  next
    case 6
    then have "2 * pi \<le> of_int k * pi / 3 - a \<and> of_int k * pi / 3 - a \<le> 3 * pi" using p by simp
    then show ?thesis by (simp add: sin_nonneg_up)
  qed
  then show ?thesis by (simp only: e)
qed

lemma wedge_del2:
  assumes "sector_cond k (a * 180 / pi)"
  shows "0 \<le> sin a * cos ((of_int k - 1) * pi / 3) - cos a * sin ((of_int k - 1) * pi / 3)"
proof -
  have e: "sin a * cos ((of_int k - 1) * pi / 3) - cos a * sin ((of_int k - 1) * pi / 3)
           = sin (a - (of_int k - 1) * pi / 3)"
    by (simp only: sin_diff)
  have p: "0 < pi" by simp
  from assms have "0 \<le> sin (a - (of_int k - 1) * pi / 3)"
  proof (cases rule: sector_cond_angle)
    case 1
    then have "0 \<le> a - (of_int k - 1) * pi / 3 \<and> a - (of_int k - 1) * pi / 3 \<le> pi" using p by simp
    then show ?thesis by (simp add: sin_ge_zero)
  next
    case 2
    then have "0 \<le> a - (of_int k - 1) * pi / 3 \<and> a - (of_int k - 1) * pi / 3 \<le> pi" using p by simp
    then show ?thesis by (simp add: sin_ge_zero)
  next
    case 3
    then have "0 \<le> a - (of_int k - 1) * pi / 3 \<and> a - (of_int k - 1) * pi / 3 \<le> pi" using p by simp
    then show ?thesis by (simp add: sin_ge_zero)
  next
    case 4
    then have "- (2 * pi) \<le> a - (of_int k - 1) * pi / 3 \<and> a - (of_int k - 1) * pi / 3 \<le> - pi" using p by simp
    then show ?thesis by (simp add: sin_nonneg_down)
  next
    case 5
    then have "- (2 * pi) \<le> a - (of_int k - 1) * pi / 3 \<and> a - (of_int k - 1) * pi / 3 \<le> - pi" using p by simp
    then show ?thesis by (simp add: sin_nonneg_down)
  next
    case 6
    then have "- (2 * pi) \<le> a - (of_int k - 1) * pi / 3 \<and> a - (of_int k - 1) * pi / 3 \<le> - pi" using p by simp
    then show ?thesis by (simp add: sin_nonneg_down)
  qed
  then show ?thesis by (simp only: e)
qed

lemma del_nonneg:
  assumes "sector_cond (sector S) (deg S)"
  shows "0 \<le> del1 S" and "0 \<le> del2 S"
proof -
  have c: "sector_cond (sector S) (angle S * 180 / pi)"
    using assms by (simp add: deg_def PI_def)
  have m: "0 \<le> 2 / sqrt 3 * Mi S" by (simp add: Mi_def)
  have e1: "del1 S = (2 / sqrt 3 * Mi S) *
      (cos (angle S) * sin (of_int (sector S) * pi / 3)
        - sin (angle S) * cos (of_int (sector S) * pi / 3))"
    by (simp add: del1_def n_def PI_def)
  have e2: "del2 S = (2 / sqrt 3 * Mi S) *
      (sin (angle S) * cos ((of_int (sector S) - 1) * pi / 3)
        - cos (angle S) * sin ((of_int (sector S) - 1) * pi / 3))"
    by (simp add: del2_def n_def PI_def)
  show "0 \<le> del1 S"
    unfolding e1 using m wedge_del1 [OF c] by (rule mult_nonneg_nonneg)
  show "0 \<le> del2 S"
    unfolding e2 using m wedge_del2 [OF c] by (rule mult_nonneg_nonneg)
qed

text \<open>
  Claim C3. For every input whose computed angle lies inside the wedge of the sector
  selected for it, the duty fractions \<open>del1\<close> and \<open>del2\<close> are non-negative,
  \<open>del3 = 1 - |del1| - |del2|\<close>, and the dwell times add up to the carrier period:
  \<open>T1 + T2 + Tz = Ts\<close>, exactly, in real arithmetic. The three dwell times are the
  outputs \<open>y[6]\<close>, \<open>y[7]\<close> and \<open>y[8]\<close>.
\<close>

theorem dwell_times_sum:
  assumes "mdlInitializeSizes S" and "sector_cond (sector S) (deg S)"
  shows "0 \<le> del1 S \<and> 0 \<le> del2 S \<and> del3 S = 1 - \<bar>del1 S\<bar> - \<bar>del2 S\<bar>
    \<and> T1 S + T2 S + Tz S = Ts S
    \<and> OutputPort0 (mdlOutputs S) ! 6 + OutputPort0 (mdlOutputs S) ! 7
        + OutputPort0 (mdlOutputs S) ! 8 = Ts S"
proof -
  have d: "0 \<le> del1 S" "0 \<le> del2 S" using del_nonneg [OF assms(2)] by simp_all
  have s: "T1 S + T2 S + Tz S = Ts S"
    using d by (simp add: T1_def T2_def Tz_def del3_def algebra_simps)
  show ?thesis using d s by (simp add: mdlOutputs_def del3_def)
qed

theorem dwell_times_sum_witness:
  "mdlInitializeSizes \<lparr>ContStates = [0.1], dX = [0], InputPort0 = [16384, 0],
      InputPort1 = [1], OutputPort0 = replicate 9 0, Vbus = 24, Ts = 1 / 20000\<rparr>
   \<and> sector_cond 1 0
   \<and> T1 \<lparr>ContStates = [0.1], dX = [0], InputPort0 = [16384, 0],
      InputPort1 = [1], OutputPort0 = replicate 9 0, Vbus = 24, Ts = 1 / 20000\<rparr>
     + T2 \<lparr>ContStates = [0.1], dX = [0], InputPort0 = [16384, 0],
      InputPort1 = [1], OutputPort0 = replicate 9 0, Vbus = 24, Ts = 1 / 20000\<rparr>
     + Tz \<lparr>ContStates = [0.1], dX = [0], InputPort0 = [16384, 0],
      InputPort1 = [1], OutputPort0 = replicate 9 0, Vbus = 24, Ts = 1 / 20000\<rparr>
     = 1 / 20000"
proof -
  let ?S = "\<lparr>ContStates = [0.1], dX = [0], InputPort0 = [16384, 0],
      InputPort1 = [1], OutputPort0 = replicate 9 0, Vbus = 24, Ts = 1 / 20000\<rparr>"
  have h1: "mdlInitializeSizes ?S"
    by (simp add: mdlInitializeSizes_def NUM_CSTATES_def)
  have dg: "deg ?S = 0"
    by (simp add: deg_def angle_def atan2_def Va_def Vb_def)
  then have sc: "sector ?S = 1"
    by (simp add: sector_def sector_select_def sector_cond_def)
  have c: "sector_cond 1 (0 :: real)" by (simp add: sector_cond_def)
  then have h2: "sector_cond (sector ?S) (deg ?S)" by (simp only: dg sc)
  from dwell_times_sum [OF h1 h2] h1 c show ?thesis by simp
qed

subsection \<open>Phase outputs and carrier\<close>

text \<open>
  Claim C6. For every input and carrier state, each of the three phase outputs
  \<open>y[0]\<close>, \<open>y[1]\<close>, \<open>y[2]\<close> is exactly 0 or exactly the bus voltage.
\<close>

theorem phase_outputs_two_level:
  "mdlInitializeSizes S \<Longrightarrow>
   (OutputPort0 (mdlOutputs S) ! 0 = 0 \<or> OutputPort0 (mdlOutputs S) ! 0 = Vbus S) \<and>
   (OutputPort0 (mdlOutputs S) ! 1 = 0 \<or> OutputPort0 (mdlOutputs S) ! 1 = Vbus S) \<and>
   (OutputPort0 (mdlOutputs S) ! 2 = 0 \<or> OutputPort0 (mdlOutputs S) ! 2 = Vbus S)"
  by (simp add: mdlOutputs_def U_def V_def W_def)

theorem phase_outputs_two_level_witness:
  "mdlInitializeSizes 
     \<lparr>ContStates = [0.1], dX = [0], InputPort0 = [16384, 0],
      InputPort1 = [1], OutputPort0 = replicate 9 0, Vbus = 24, Ts = 1 / 20000\<rparr> \<and>
   (OutputPort0 (mdlOutputs 
     \<lparr>ContStates = [0.1], dX = [0], InputPort0 = [16384, 0],
      InputPort1 = [1], OutputPort0 = replicate 9 0, Vbus = 24, Ts = 1 / 20000\<rparr>) ! 0 = 0 \<or> OutputPort0 (mdlOutputs 
     \<lparr>ContStates = [0.1], dX = [0], InputPort0 = [16384, 0],
      InputPort1 = [1], OutputPort0 = replicate 9 0, Vbus = 24, Ts = 1 / 20000\<rparr>) ! 0 = 24) \<and>
   (OutputPort0 (mdlOutputs 
     \<lparr>ContStates = [0.1], dX = [0], InputPort0 = [16384, 0],
      InputPort1 = [1], OutputPort0 = replicate 9 0, Vbus = 24, Ts = 1 / 20000\<rparr>) ! 1 = 0 \<or> OutputPort0 (mdlOutputs 
     \<lparr>ContStates = [0.1], dX = [0], InputPort0 = [16384, 0],
      InputPort1 = [1], OutputPort0 = replicate 9 0, Vbus = 24, Ts = 1 / 20000\<rparr>) ! 1 = 24) \<and>
   (OutputPort0 (mdlOutputs 
     \<lparr>ContStates = [0.1], dX = [0], InputPort0 = [16384, 0],
      InputPort1 = [1], OutputPort0 = replicate 9 0, Vbus = 24, Ts = 1 / 20000\<rparr>) ! 2 = 0 \<or> OutputPort0 (mdlOutputs 
     \<lparr>ContStates = [0.1], dX = [0], InputPort0 = [16384, 0],
      InputPort1 = [1], OutputPort0 = replicate 9 0, Vbus = 24, Ts = 1 / 20000\<rparr>) ! 2 = 24)"
proof -
  have h: "mdlInitializeSizes 
     \<lparr>ContStates = [0.1], dX = [0], InputPort0 = [16384, 0],
      InputPort1 = [1], OutputPort0 = replicate 9 0, Vbus = 24, Ts = 1 / 20000\<rparr>"
    by (simp add: mdlInitializeSizes_def NUM_CSTATES_def)
  from phase_outputs_two_level [OF h] h show ?thesis by simp
qed

text \<open>
  Claim C9. The value compared with the three thresholds, and the value written to
  \<open>y[5]\<close>, is 4 times the carrier state \<open>x[0]\<close>: each phase output is the bus
  voltage if its threshold exceeds \<open>4 * x[0]\<close>, and 0 otherwise.
\<close>

theorem carrier_scaled:
  "mdlInitializeSizes S \<Longrightarrow>
   ramp S = 4 * ContStates S ! 0 \<and>
   OutputPort0 (mdlOutputs S) ! 5 = 4 * ContStates S ! 0 \<and>
   OutputPort0 (mdlOutputs S) ! 0 = (if sine1 S > 4 * ContStates S ! 0 then Vbus S else 0) \<and>
   OutputPort0 (mdlOutputs S) ! 1 = (if sine2 S > 4 * ContStates S ! 0 then Vbus S else 0) \<and>
   OutputPort0 (mdlOutputs S) ! 2 = (if sine3 S > 4 * ContStates S ! 0 then Vbus S else 0)"
  by (simp add: mdlOutputs_def U_def V_def W_def ramp_def)

theorem carrier_scaled_witness:
  "mdlInitializeSizes 
     \<lparr>ContStates = [0.1], dX = [0], InputPort0 = [16384, 0],
      InputPort1 = [1], OutputPort0 = replicate 9 0, Vbus = 24, Ts = 1 / 20000\<rparr> \<and>
   ramp 
     \<lparr>ContStates = [0.1], dX = [0], InputPort0 = [16384, 0],
      InputPort1 = [1], OutputPort0 = replicate 9 0, Vbus = 24, Ts = 1 / 20000\<rparr> = 4 * 0.1 \<and>
   OutputPort0 (mdlOutputs 
     \<lparr>ContStates = [0.1], dX = [0], InputPort0 = [16384, 0],
      InputPort1 = [1], OutputPort0 = replicate 9 0, Vbus = 24, Ts = 1 / 20000\<rparr>) ! 5 = 4 * 0.1 \<and>
   OutputPort0 (mdlOutputs 
     \<lparr>ContStates = [0.1], dX = [0], InputPort0 = [16384, 0],
      InputPort1 = [1], OutputPort0 = replicate 9 0, Vbus = 24, Ts = 1 / 20000\<rparr>) ! 0 = (if sine1 
     \<lparr>ContStates = [0.1], dX = [0], InputPort0 = [16384, 0],
      InputPort1 = [1], OutputPort0 = replicate 9 0, Vbus = 24, Ts = 1 / 20000\<rparr> > 4 * 0.1 then 24 else 0) \<and>
   OutputPort0 (mdlOutputs 
     \<lparr>ContStates = [0.1], dX = [0], InputPort0 = [16384, 0],
      InputPort1 = [1], OutputPort0 = replicate 9 0, Vbus = 24, Ts = 1 / 20000\<rparr>) ! 1 = (if sine2 
     \<lparr>ContStates = [0.1], dX = [0], InputPort0 = [16384, 0],
      InputPort1 = [1], OutputPort0 = replicate 9 0, Vbus = 24, Ts = 1 / 20000\<rparr> > 4 * 0.1 then 24 else 0) \<and>
   OutputPort0 (mdlOutputs 
     \<lparr>ContStates = [0.1], dX = [0], InputPort0 = [16384, 0],
      InputPort1 = [1], OutputPort0 = replicate 9 0, Vbus = 24, Ts = 1 / 20000\<rparr>) ! 2 = (if sine3 
     \<lparr>ContStates = [0.1], dX = [0], InputPort0 = [16384, 0],
      InputPort1 = [1], OutputPort0 = replicate 9 0, Vbus = 24, Ts = 1 / 20000\<rparr> > 4 * 0.1 then 24 else 0)"
proof -
  have h: "mdlInitializeSizes 
     \<lparr>ContStates = [0.1], dX = [0], InputPort0 = [16384, 0],
      InputPort1 = [1], OutputPort0 = replicate 9 0, Vbus = 24, Ts = 1 / 20000\<rparr>"
    by (simp add: mdlInitializeSizes_def NUM_CSTATES_def)
  from carrier_scaled [OF h] h show ?thesis by simp
qed

text \<open>
  Claim C7. \<open>mdlInitializeConditions\<close> sets the carrier state to exactly zero, and
  the derivative computed by \<open>mdlDerivatives\<close> is the secondary input minus 0.5,
  whatever the carrier state and the primary inputs are.
\<close>

theorem carrier_init_and_rate:
  "mdlInitializeSizes S \<Longrightarrow>
   ContStates (mdlInitializeConditions S) = [0] \<and>
   dX (mdlDerivatives S) ! 0 = InputPort1 S ! 0 - 0.5 \<and>
   (\<forall>xs us. dX (mdlDerivatives (S\<lparr>ContStates := xs, InputPort0 := us\<rparr>))
              = dX (mdlDerivatives S))"
  by (cases "ContStates S")
    (simp_all add: mdlInitializeSizes_def mdlInitializeConditions_def mdlDerivatives_def
      NUM_CSTATES_def)

theorem carrier_init_and_rate_witness:
  "mdlInitializeSizes 
     \<lparr>ContStates = [0.1], dX = [0], InputPort0 = [16384, 0],
      InputPort1 = [1], OutputPort0 = replicate 9 0, Vbus = 24, Ts = 1 / 20000\<rparr> \<and>
   ContStates (mdlInitializeConditions 
     \<lparr>ContStates = [0.1], dX = [0], InputPort0 = [16384, 0],
      InputPort1 = [1], OutputPort0 = replicate 9 0, Vbus = 24, Ts = 1 / 20000\<rparr>) = [0] \<and>
   dX (mdlDerivatives 
     \<lparr>ContStates = [0.1], dX = [0], InputPort0 = [16384, 0],
      InputPort1 = [1], OutputPort0 = replicate 9 0, Vbus = 24, Ts = 1 / 20000\<rparr>) ! 0 = 1 - 0.5"
proof -
  have h: "mdlInitializeSizes 
     \<lparr>ContStates = [0.1], dX = [0], InputPort0 = [16384, 0],
      InputPort1 = [1], OutputPort0 = replicate 9 0, Vbus = 24, Ts = 1 / 20000\<rparr>"
    by (simp add: mdlInitializeSizes_def NUM_CSTATES_def)
  from carrier_init_and_rate [OF h] h show ?thesis by simp
qed


end
